theory Spec2Isabelle
  imports Main "HOL-Library.Char_ord" "HOL-Library.List_Lexorder" "HOL-Library.AList"
begin

section \<open>JSON values\<close>

text \<open>
  The page works on the result of \<^verbatim>\<open>JSON.parse\<close>. An object is kept as the list of its
  own entries in the order \<^verbatim>\<open>Object.entries\<close> enumerates them (keys are distinct in a
  real object, see \<open>wfJson\<close>). Numbers are the integral ones, whose \<^verbatim>\<open>String(n)\<close> is the
  decimal numeral; strings are lists of characters.
\<close>

datatype json =
    JNull
  | JBool bool
  | JNum int
  | JStr string
  | JArr "json list"
  | JObj "(string \<times> json) list"

text \<open>
  A table cell is typed \<^verbatim>\<open>any\<close>: besides a JSON value it can be \<^verbatim>\<open>undefined\<close> (a missing
  property) or, because \<^verbatim>\<open>item[header]\<close> walks the prototype chain, the member of
  \<^verbatim>\<open>Object.prototype\<close> that has the header's name.
\<close>

datatype jsval =
    Val json
  | Undefined
  | Builtin string

text \<open>
  The names of the members of \<^verbatim>\<open>Object.prototype\<close> that a property lookup on a plain object
  finds when the object has no own property of that name.
\<close>

definition objectPrototypeNames :: "string list" where
  "objectPrototypeNames =
     [''constructor'', ''hasOwnProperty'', ''isPrototypeOf'', ''propertyIsEnumerable'',
      ''toLocaleString'', ''toString'', ''valueOf'', ''__proto__'',
      ''__defineGetter__'', ''__defineSetter__'', ''__lookupGetter__'', ''__lookupSetter__'']"

text \<open>\<^verbatim>\<open>typeof item === 'object' && item !== null\<close>: true of arrays as well.\<close>

fun isObjectLike :: "json \<Rightarrow> bool" where
  "isObjectLike (JArr xs) = True"
| "isObjectLike (JObj kvs) = True"
| "isObjectLike v = False"

text \<open>\<^verbatim>\<open>typeof item === 'object' && item !== null && !Array.isArray(item)\<close>.\<close>

fun isPlainObject :: "json \<Rightarrow> bool" where
  "isPlainObject (JObj kvs) = True"
| "isPlainObject v = False"

text \<open>\<^verbatim>\<open>Object.entries\<close> and \<^verbatim>\<open>Object.keys\<close> of a plain object.\<close>

fun objectEntries :: "json \<Rightarrow> (string \<times> json) list" where
  "objectEntries (JObj kvs) = kvs"
| "objectEntries v = []"

definition objectKeys :: "json \<Rightarrow> string list" where
  "objectKeys item = map fst (objectEntries item)"

text \<open>
  \<^verbatim>\<open>item[key]\<close> on a plain object: the own property, else the inherited member of
  \<^verbatim>\<open>Object.prototype\<close>, else \<^verbatim>\<open>undefined\<close>. On the other values the page only ever asks
  for \<^verbatim>\<open>Packages\<close> and \<^verbatim>\<open>Vulnerabilities\<close>, which arrays do not have.
\<close>

fun getProp :: "json \<Rightarrow> string \<Rightarrow> jsval" where
  "getProp (JObj kvs) key =
     (case map_of kvs key of
        Some v \<Rightarrow> Val v
      | None \<Rightarrow> if key \<in> set objectPrototypeNames then Builtin key else Undefined)"
| "getProp v key = Undefined"

text \<open>\<^verbatim>\<open>Set.prototype.add\<close> on a set kept in insertion order.\<close>

definition setAdd :: "'a \<Rightarrow> 'a list \<Rightarrow> 'a list" where
  "setAdd key acc = (if key \<in> set acc then acc else acc @ [key])"

section \<open>Strings and serialization\<close>

text \<open>\<^verbatim>\<open>Array.prototype.join\<close> on an array of strings.\<close>

fun join :: "string \<Rightarrow> string list \<Rightarrow> string" where
  "join sep [] = []"
| "join sep [x] = x"
| "join sep (x # y # ys) = x @ sep @ join sep (y # ys)"

definition digitChar :: "nat \<Rightarrow> char" where
  "digitChar d = ''0123456789'' ! d"

text \<open>
  The decimal numeral of a natural number and of an integer, as \<^verbatim>\<open>String\<close> and
  \<^verbatim>\<open>JSON.stringify\<close> print it.
\<close>

function natString :: "nat \<Rightarrow> string" where
  "natString n = (if n < 10 then [digitChar n] else natString (n div 10) @ [digitChar (n mod 10)])"
  by pat_completeness auto
termination
  by (relation "measure id") auto

declare natString.simps [simp del]

definition numString :: "int \<Rightarrow> string" where
  "numString i = (if i < 0 then ''-'' @ natString (nat (- i)) else natString (nat i))"

text \<open>\<^verbatim>\<open>String(v)\<close>.\<close>

fun String_js :: "json \<Rightarrow> string" where
  "String_js JNull = ''null''"
| "String_js (JBool b) = (if b then ''true'' else ''false'')"
| "String_js (JNum n) = numString n"
| "String_js (JStr s) = s"
| "String_js (JArr xs) = join '','' (map (\<lambda>x. case x of JNull \<Rightarrow> [] | _ \<Rightarrow> String_js x) xs)"
| "String_js (JObj kvs) = ''[object Object]''"

text \<open>
  \<^verbatim>\<open>QuoteJSONString\<close>: the two-character escapes, a six-character hexadecimal escape
  for the other control characters, every other character as it is.
\<close>

definition hexDigit :: "nat \<Rightarrow> char" where
  "hexDigit d = ''0123456789abcdef'' ! d"

definition quoteChar :: "char \<Rightarrow> string" where
  "quoteChar c =
     (if c = CHR 0x08 then [CHR 0x5C, CHR ''b'']
      else if c = CHR 0x09 then [CHR 0x5C, CHR ''t'']
      else if c = CHR 0x0A then [CHR 0x5C, CHR ''n'']
      else if c = CHR 0x0C then [CHR 0x5C, CHR ''f'']
      else if c = CHR 0x0D then [CHR 0x5C, CHR ''r'']
      else if c = CHR 0x22 then [CHR 0x5C, CHR 0x22]
      else if c = CHR 0x5C then [CHR 0x5C, CHR 0x5C]
      else if (of_char c :: nat) < 0x20
        then [CHR 0x5C, CHR ''u'', CHR ''0'', CHR ''0'',
              hexDigit ((of_char c :: nat) div 16), hexDigit ((of_char c :: nat) mod 16)]
      else [c])"

definition quoteJSONString :: "string \<Rightarrow> string" where
  "quoteJSONString s = [CHR 0x22] @ concat (map quoteChar s) @ [CHR 0x22]"

text \<open>
  \<^verbatim>\<open>JSON.stringify\<close> after ECMA-262 (SerializeJSONProperty, SerializeJSONObject,
  SerializeJSONArray): \<open>gap\<close> is the indentation unit (empty for the compact form) and
  \<open>indent\<close> the current indentation.
\<close>

fun serializeJSON :: "string \<Rightarrow> string \<Rightarrow> json \<Rightarrow> string" where
  "serializeJSON gap indent JNull = ''null''"
| "serializeJSON gap indent (JBool b) = (if b then ''true'' else ''false'')"
| "serializeJSON gap indent (JNum n) = numString n"
| "serializeJSON gap indent (JStr s) = quoteJSONString s"
| "serializeJSON gap indent (JArr xs) =
     (if xs = [] then ''[]''
      else if gap = [] then
        ''['' @ join '','' (map (serializeJSON gap (indent @ gap)) xs) @ '']''
      else
        ''['' @ [CHR 0x0A] @ (indent @ gap)
        @ join ('','' @ [CHR 0x0A] @ (indent @ gap)) (map (serializeJSON gap (indent @ gap)) xs)
        @ [CHR 0x0A] @ indent @ '']'')"
| "serializeJSON gap indent (JObj kvs) =
     (if kvs = [] then ''{}''
      else if gap = [] then
        ''{''
        @ join '','' (map (\<lambda>(k, v). quoteJSONString k @ '':'' @ serializeJSON gap (indent @ gap) v) kvs)
        @ ''}''
      else
        ''{'' @ [CHR 0x0A] @ (indent @ gap)
        @ join ('','' @ [CHR 0x0A] @ (indent @ gap))
            (map (\<lambda>(k, v). quoteJSONString k @ '': '' @ serializeJSON gap (indent @ gap) v) kvs)
        @ [CHR 0x0A] @ indent @ ''}'')"

text \<open>\<^verbatim>\<open>JSON.stringify(value)\<close>: no gap, no indentation.\<close>

definition JSON_stringify :: "json \<Rightarrow> string" where
  "JSON_stringify value = serializeJSON [] [] value"


section \<open>The structure of a table\<close>

text \<open>
  \<^verbatim>\<open>getTableStructure(data, excludeKeys)\<close>: headers and rows of the grid for a value. An array
  of plain objects gives the sorted key union as headers; any other array gives the columns
  Index and Value; a plain object gives Property and Value.
\<close>

record tableStructure =
  headers :: "string list"
  rows :: "jsval list list"

definition getTableStructure :: "json \<Rightarrow> string list \<Rightarrow> tableStructure" where
  "getTableStructure data excludeKeys =
     (case data of
        JArr xs \<Rightarrow>
          if length xs = 0 then \<lparr>headers = [''Index'', ''Value''], rows = []\<rparr>
          else if list_all isPlainObject xs then
            (let allKeys =
                   fold (\<lambda>item acc.
                          fold (\<lambda>key acc. if key \<notin> set excludeKeys then setAdd key acc else acc)
                               (objectKeys item) acc)
                        xs [];
                 hs = sort allKeys
             in \<lparr>headers = hs, rows = map (\<lambda>item. map (\<lambda>header. getProp item header) hs) xs\<rparr>)
          else \<lparr>headers = [''Index'', ''Value''],
                rows = map (\<lambda>(index, item). [Val (JNum (int index)), Val item]) (enumerate 0 xs)\<rparr>
      | JObj kvs \<Rightarrow>
          \<lparr>headers = [''Key'', ''Value''],
           rows = map (\<lambda>(key, value). [Val (JStr key), Val value])
                      (filter (\<lambda>(key, value). key \<notin> set excludeKeys) kvs)\<rparr>
      | _ \<Rightarrow> \<lparr>headers = [''Value''], rows = [[Val data]]\<rparr>)"

text \<open>
  \<^verbatim>\<open>isNestedStructure(value)\<close>: \<^verbatim>\<open>typeof item === 'object' && item !== null\<close> for every
  element of a non-empty array, or a non-null non-array object with a key.
\<close>

definition isNestedStructure :: "json \<Rightarrow> bool" where
  "isNestedStructure value =
     (case value of
        JArr xs \<Rightarrow> length xs > 0 \<and> list_all isObjectLike xs
      | JObj kvs \<Rightarrow> length kvs > 0
      | _ \<Rightarrow> False)"

section \<open>The CSV export\<close>

text \<open>
  The record \<^verbatim>\<open>flattened\<close> of the inner function \<^verbatim>\<open>flattenObject\<close> of the export: own
  properties with string values, in insertion order.
\<close>

type_synonym flatRecord = "(string \<times> string) list"

text \<open>
  \<^verbatim>\<open>flattened[newKey] = s\<close>. An assignment to the name \<^verbatim>\<open>__proto__\<close> reaches the setter
  inherited from \<^verbatim>\<open>Object.prototype\<close>, which ignores a string: no own property appears.
  \<^verbatim>\<open>Object.assign\<close> assigns the source's own properties in order.
\<close>

definition setProp :: "flatRecord \<Rightarrow> string \<Rightarrow> string \<Rightarrow> flatRecord" where
  "setProp flattened key s = (if key = ''__proto__'' then flattened else AList.update key s flattened)"

definition objectAssign :: "flatRecord \<Rightarrow> flatRecord \<Rightarrow> flatRecord" where
  "objectAssign target source = fold (\<lambda>(key, s) acc. setProp acc key s) source target"

text \<open>
  The loop \<^verbatim>\<open>for (const [key, value] of Object.entries(obj))\<close> of \<^verbatim>\<open>flattenObject\<close>, on the
  entries that remain and the record built so far.
\<close>

function flattenObject_loop :: "(string \<times> json) list \<Rightarrow> string \<Rightarrow> flatRecord \<Rightarrow> flatRecord" where
  "flattenObject_loop [] prefix flattened = flattened"
| "flattenObject_loop ((key, value) # rest) prefix flattened =
     (let newKey = (if prefix \<noteq> [] then prefix @ ''.'' @ key else key) in
      flattenObject_loop rest prefix
        (case value of
           JNull \<Rightarrow> setProp flattened newKey []
         | JArr xs \<Rightarrow>
             if length xs = 0 then setProp flattened newKey ''[]''
             else if list_all isObjectLike xs then setProp flattened newKey (JSON_stringify value)
             else setProp flattened newKey (join ''; '' (map String_js xs))
         | JObj kvs \<Rightarrow> objectAssign flattened (flattenObject_loop kvs newKey [])
         | _ \<Rightarrow> setProp flattened newKey (String_js value)))"
  by pat_completeness auto
termination
  by (relation "measure (\<lambda>(es, p, fl). size_list (size_prod (\<lambda>_. 0) size) es)") auto

text \<open>
  \<^verbatim>\<open>Object.entries\<close> raises a TypeError on null, gives no entry for a number or a boolean and
  the indexed entries of a string or an array.
\<close>

datatype jsError = TypeError

fun Object_entries :: "json \<Rightarrow> jsError + (string \<times> json) list" where
  "Object_entries JNull = Inl TypeError"
| "Object_entries (JBool b) = Inr []"
| "Object_entries (JNum n) = Inr []"
| "Object_entries (JStr s) = Inr (map (\<lambda>(i, c). (natString i, JStr [c])) (enumerate 0 s))"
| "Object_entries (JArr xs) = Inr (map (\<lambda>(i, x). (natString i, x)) (enumerate 0 xs))"
| "Object_entries (JObj kvs) = Inr kvs"

definition flattenObject :: "json \<Rightarrow> string \<Rightarrow> jsError + flatRecord" where
  "flattenObject obj prefix =
     (case Object_entries obj of
        Inl e \<Rightarrow> Inl e
      | Inr es \<Rightarrow> Inr (flattenObject_loop es prefix []))"

text \<open>
  What the functions of the page take from their surroundings: the date in the name of an
  exported file, the text \<^verbatim>\<open>String\<close> gives for a built-in function
  (implementation-defined), and the component's set of collapsed table identifiers.
\<close>

record env =
  today :: string
  builtinString :: "string \<Rightarrow> string"
  collapsedTables :: "string list"

definition exampleEnv :: env where
  "exampleEnv = \<lparr>today = ''2025-01-31'',
                  builtinString = (\<lambda>name. ''function '' @ name @ ''() { [native code] }''),
                  collapsedTables = []\<rparr>"

text \<open>
  What a call of \<^verbatim>\<open>exportToCSV\<close> does: nothing, the download of a file with a name and a
  content, or an exception.
\<close>

datatype exportResult =
    NoOutput
  | Download string string
  | Raised jsError

fun flattenAll :: "json list \<Rightarrow> jsError + flatRecord list" where
  "flattenAll [] = Inr []"
| "flattenAll (item # items) =
     (case flattenObject item [] of
        Inl e \<Rightarrow> Inl e
      | Inr flattened \<Rightarrow>
          (case flattenAll items of Inl e \<Rightarrow> Inl e | Inr rest \<Rightarrow> Inr (flattened # rest)))"

text \<open>\<^verbatim>\<open>flattened[header] || ''\<close>, then \<^verbatim>\<open>String(value)\<close>.\<close>

definition flattenedCell :: "env \<Rightarrow> flatRecord \<Rightarrow> string \<Rightarrow> string" where
  "flattenedCell e flattened header =
     (case map_of flattened header of
        Some s \<Rightarrow> s
      | None \<Rightarrow> if header \<in> set objectPrototypeNames then builtinString e header else [])"

definition csvCell :: "string \<Rightarrow> string" where
  "csvCell value =
     (let escaped = concat (map (\<lambda>c. if c = CHR 0x22 then [CHR 0x22, CHR 0x22] else [c]) value)
      in if CHR '','' \<in> set escaped \<or> CHR 0x22 \<in> set escaped \<or> CHR 0x0A \<in> set escaped
         then [CHR 0x22] @ escaped @ [CHR 0x22]
         else escaped)"

definition csvHeaders :: "flatRecord list \<Rightarrow> string list" where
  "csvHeaders records =
     sort (fold (\<lambda>flattened acc. fold setAdd (map fst flattened) acc) records [])"

text \<open>
  \<^verbatim>\<open>exportToCSV(data, tableName)\<close>. The parameter is typed \<^verbatim>\<open>any[]\<close> and guarded by
  \<^verbatim>\<open>!data\<close>, so null and undefined are inputs too (\<open>None\<close>).
\<close>

definition exportToCSV :: "env \<Rightarrow> json list option \<Rightarrow> string \<Rightarrow> exportResult" where
  "exportToCSV e data tableName =
     (case data of
        None \<Rightarrow> NoOutput
      | Some items \<Rightarrow>
          if length items = 0 then NoOutput
          else (case flattenAll items of
                  Inl err \<Rightarrow> Raised err
                | Inr records \<Rightarrow>
                    (let hs = csvHeaders records;
                         csvRows = join '','' hs #
                           map (\<lambda>flattened.
                                  join '','' (map (\<lambda>header. csvCell (flattenedCell e flattened header)) hs))
                               records;
                         csvContent = join [CHR 0x0A] csvRows
                     in Download (tableName @ ''_'' @ today e @ ''.csv'') csvContent)))"

section \<open>The rendered tree\<close>

text \<open>
  The element tree the renderers return, reduced to what it shows: which value stands in which
  cell, which tables there are with which headers, rows and child tables. Styling is left out.
\<close>

datatype node =
    NoNode
  | NullSpan
  | UndefinedSpan
  | BoolSpan bool
  | NumSpan int
  | TextSpan string
  | EmptyArraySpan
  | Badges "node list"
  | Props "node list"
  | Field string node
  | Bullets string "node list"
  | TableSection "node list"
  | NestedTable string nat "string list" "(node list \<times> node) list"
  | CollapsibleTable string nat string nat "(string list \<times> node list list) option"

definition isObjectArray :: "json \<Rightarrow> bool" where
  "isObjectArray v = (case v of JArr xs \<Rightarrow> length xs > 0 \<and> list_all isObjectLike xs | _ \<Rightarrow> False)"

definition nthOpt :: "'a list \<Rightarrow> nat \<Rightarrow> 'a option" where
  "nthOpt xs i = (if i < length xs then Some (xs ! i) else None)"

definition indexString :: "nat option \<Rightarrow> string" where
  "indexString i = (case i of None \<Rightarrow> ''undefined'' | Some n \<Rightarrow> natString n)"

definition nonEmptyArrayProp :: "json option \<Rightarrow> string \<Rightarrow> json list option" where
  "nonEmptyArrayProp originalRow name =
     (case originalRow of
        None \<Rightarrow> None
      | Some item \<Rightarrow>
          (case getProp item name of
             Val (JArr ps) \<Rightarrow> if length ps > 0 then Some ps else None
           | _ \<Rightarrow> None))"

definition tableOrder :: "string \<Rightarrow> nat" where
  "tableOrder k = (if k = ''Vulnerabilities'' then 1 else if k = ''Packages'' then 2 else 99)"

definition valSize :: "jsval \<Rightarrow> nat" where
  "valSize x = (case x of Val v \<Rightarrow> size v | _ \<Rightarrow> 0)"

definition typeofObject :: "jsval \<Rightarrow> bool" where
  "typeofObject x = (case x of Val v \<Rightarrow> isObjectLike v | Builtin name \<Rightarrow> name = ''__proto__'' | Undefined \<Rightarrow> False)"

text \<open>
  Facts about sizes, for the termination of the renderers: a cell of a grid, an entry of an
  object and an element of an array are smaller than the value they come from.
\<close>

lemma rows_array_of_objects:
  assumes "xs \<noteq> []" and "list_all isPlainObject xs"
  shows "rows (getTableStructure (JArr xs) E)
           = map (\<lambda>item. map (getProp item) (headers (getTableStructure (JArr xs) E))) xs"
  using assms by (simp add: getTableStructure_def Let_def)

lemma valSize_simps [simp]:
  "valSize (Val v) = size v" "valSize Undefined = 0" "valSize (Builtin name) = 0"
  by (simp_all add: valSize_def)

lemma typeofObject_simps [simp]:
  "typeofObject (Val v) = isObjectLike v" "typeofObject Undefined = False"
  "typeofObject (Builtin name) = (name = ''__proto__'')"
  by (simp_all add: typeofObject_def)

lemma elem_size: "x \<in> set xs \<Longrightarrow> size x < size_list size xs"
  by (induction xs) auto

lemma entry_size: "(k, v) \<in> set kvs \<Longrightarrow> size v < size_list (size_prod (\<lambda>x. 0) size) kvs"
  by (induction kvs) auto

lemma entry_elem_size:
  "(k, JArr xs) \<in> set kvs \<Longrightarrow> x \<in> set xs \<Longrightarrow> size x < size_list (size_prod (\<lambda>x. 0) size) kvs"
  using entry_size [of k "JArr xs" kvs] elem_size [of x xs] by simp

lemma getProp_size: "getProp item k = Val v \<Longrightarrow> size v < size item"
proof (cases item)
  case (JObj kvs)
  assume "getProp item k = Val v"
  with JObj have "map_of kvs k = Some v" by (auto split: option.splits if_splits)
  then have "(k, v) \<in> set kvs" by (rule map_of_SomeD)
  then show ?thesis using JObj entry_size [of k v kvs] by simp
qed simp_all

lemma enumerate_mem: "(i, x) \<in> set (enumerate n xs) \<Longrightarrow> x \<in> set xs"
  by (auto simp: in_set_enumerate_eq)

lemma cell_size:
  assumes "row \<in> set (rows (getTableStructure (JArr xs) E))" and "cell \<in> set row"
  shows "valSize cell < size_list size xs"
proof (cases "xs = []")
  case True
  with assms show ?thesis by (simp add: getTableStructure_def)
next
  case False
  show ?thesis
  proof (cases "list_all isPlainObject xs")
    case True
    with False assms(1) obtain item where item: "item \<in> set xs"
      and row: "row = map (getProp item) (headers (getTableStructure (JArr xs) E))"
      by (auto simp: rows_array_of_objects)
    from assms(2) row obtain h where cell: "cell = getProp item h" by auto
    show ?thesis
    proof (cases cell)
      case (Val v)
      with cell have "size v < size item" by (simp add: getProp_size)
      with elem_size [OF item] Val show ?thesis by simp
    next
      case Undefined
      with elem_size [OF item] show ?thesis by simp
    next
      case (Builtin name)
      with elem_size [OF item] show ?thesis by simp
    qed
  next
    case notall: False
    with False assms(1) obtain i item where "(i, item) \<in> set (enumerate 0 xs)"
      and row: "row = [Val (JNum (int i)), Val item]"
      by (auto simp: getTableStructure_def)
    then have "item \<in> set xs" by (auto dest: enumerate_mem)
    with elem_size [of item xs] assms(2) row show ?thesis by auto
  qed
qed

lemma arrayProp_size:
  assumes "nonEmptyArrayProp (nthOpt xs i) name = Some ps"
  shows "size_list size ps < size_list size xs"
proof -
  from assms obtain item where item: "nthOpt xs i = Some item"
    and p: "getProp item name = Val (JArr ps)"
    by (auto simp: nonEmptyArrayProp_def split: option.splits jsval.splits json.splits if_splits)
  from item have "item \<in> set xs" by (auto simp: nthOpt_def split: if_splits)
  then have "size item < size_list size xs" by (rule elem_size)
  moreover from p have "size (JArr ps) < size item" by (rule getProp_size)
  ultimately show ?thesis by simp
qed

text \<open>
  The four renderers \<^verbatim>\<open>renderNestedTable\<close>, \<^verbatim>\<open>renderCollapsibleTable\<close>,
  \<^verbatim>\<open>renderCellWithNestedArrays\<close> and \<^verbatim>\<open>renderCellValue\<close>, which call each other.
\<close>

function renderNestedTable :: "env \<Rightarrow> string \<Rightarrow> json \<Rightarrow> nat \<Rightarrow> node"
  and renderCollapsibleTable :: "env \<Rightarrow> string \<Rightarrow> json list \<Rightarrow> nat \<Rightarrow> string \<Rightarrow> node"
  and renderCellWithNestedArrays :: "env \<Rightarrow> jsval \<Rightarrow> string option \<Rightarrow> nat option \<Rightarrow> node"
  and renderCellValue :: "env \<Rightarrow> jsval \<Rightarrow> string option \<Rightarrow> nat option \<Rightarrow> node"
where
  "renderNestedTable e key value level =
     (case value of
        JArr xs \<Rightarrow>
          if length xs > 0 \<and> list_all isObjectLike xs then
            (let excludeKeys = (if key = ''Results'' then [''Packages'', ''Vulnerabilities''] else []);
                 t = getTableStructure value excludeKeys
             in NestedTable key (length xs) (headers t)
                  (map (\<lambda>(rowIndex, row).
                          (map (\<lambda>(cellIndex, cell).
                                  renderCellValue e cell
                                    (nthOpt (headers t) cellIndex) (Some rowIndex))
                               (enumerate 0 row),
                           (case (nonEmptyArrayProp (nthOpt xs rowIndex) ''Vulnerabilities'',
                                  nonEmptyArrayProp (nthOpt xs rowIndex) ''Packages'') of
                              (None, None) \<Rightarrow> NoNode
                            | (hasVulnerabilities, hasPackages) \<Rightarrow>
                                TableSection
                                  ((case hasVulnerabilities of
                                      Some vs \<Rightarrow>
                                        [renderCollapsibleTable e ''Vulnerabilities'' vs 1
                                           (''results-'' @ natString rowIndex @ ''-Vulnerabilities'')]
                                    | None \<Rightarrow> [])
                                   @ (case hasPackages of
                                        Some ps \<Rightarrow>
                                          [renderCollapsibleTable e ''Packages'' ps 2
                                             (''results-'' @ natString rowIndex @ ''-Packages'')]
                                      | None \<Rightarrow> [])))))
                       (enumerate 0 (rows t))))
          else NoNode
      | _ \<Rightarrow> NoNode)"
| "renderCollapsibleTable e key value index tableId =
     (let isCollapsed = (tableId \<in> set (collapsedTables e));
          t = getTableStructure (JArr value) []
      in CollapsibleTable key index tableId (length value)
           (if \<not> isCollapsed then
              Some (headers t,
                    map (\<lambda>(rowIndex, row).
                           map (\<lambda>(cellIndex, cell).
                                  renderCellWithNestedArrays e cell
                                    (nthOpt (headers t) cellIndex) (Some rowIndex))
                               (enumerate 0 row))
                        (enumerate 0 (rows t)))
            else None))"
| "renderCellWithNestedArrays e value parentKey parentRowIndex =
     (case value of
        Val (JArr xs) \<Rightarrow>
          if length xs > 0 \<and> list_all isObjectLike xs then
            (case parentKey of
               Some pk \<Rightarrow>
                 if pk = ''Packages'' \<or> pk = ''Vulnerabilities'' then
                   renderCollapsibleTable e pk xs (if pk = ''Packages'' then 2 else 1)
                     (''table-'' @ indexString parentRowIndex @ ''-'' @ pk)
                 else renderNestedTable e (if pk = [] then ''Array'' else pk) (JArr xs) 1
             | None \<Rightarrow> renderNestedTable e ''Array'' (JArr xs) 1)
          else if length xs > 0 then
            Badges (map (\<lambda>item. renderCellValue e (Val item) parentKey parentRowIndex) xs)
          else EmptyArraySpan
      | Val (JObj entries) \<Rightarrow>
          (let hasNestedArrays = list_ex (\<lambda>(k, v). isObjectArray v) entries in
           if hasNestedArrays then
             (if list_ex (\<lambda>(k, v). k = ''Packages'') entries
                 \<or> list_ex (\<lambda>(k, v). k = ''Vulnerabilities'') entries then
                (let tableEntries =
                       filter (\<lambda>(k, v). (k = ''Packages'' \<or> k = ''Vulnerabilities'') \<and> isObjectArray v)
                              entries;
                     otherEntries =
                       filter (\<lambda>(k, v). k \<noteq> ''Packages'' \<and> k \<noteq> ''Vulnerabilities'') entries
                 in Props
                      (map (\<lambda>(k, v).
                              if isObjectArray v then renderNestedTable e k v 1
                              else if isPlainObject v then
                                Field k (renderCellWithNestedArrays e (Val v) (Some k)
                                           parentRowIndex)
                              else Field k (renderCellValue e (Val v) (Some k) parentRowIndex))
                           otherEntries
                       @ (if length tableEntries > 0 then
                            [TableSection
                               (map (\<lambda>(k, v).
                                       case v of
                                         JArr ys \<Rightarrow>
                                           renderCollapsibleTable e k ys
                                             (if k = ''Vulnerabilities'' then 1 else 2)
                                             (''table-''
                                              @ natString (case parentRowIndex of None \<Rightarrow> 0 | Some i \<Rightarrow> i)
                                              @ ''-'' @ k)
                                       | _ \<Rightarrow> NoNode)
                                    (sort_key (\<lambda>(k, v). tableOrder k) tableEntries))]
                          else [])))
              else
                Props
                  (map (\<lambda>(k, v).
                          case v of
                            JArr ys \<Rightarrow>
                              if length ys > 0 \<and> list_all isObjectLike ys then
                                renderNestedTable e k v 1
                              else if length ys > 0 then
                                Bullets k
                                  (map (\<lambda>item. renderCellValue e (Val item) (Some k)
                                                 parentRowIndex) ys)
                              else Field k (TextSpan ''[]'')
                          | JObj sub \<Rightarrow>
                              Field k (renderCellWithNestedArrays e (Val v) (Some k)
                                         parentRowIndex)
                          | _ \<Rightarrow> Field k (renderCellValue e (Val v) None None))
                       entries))
           else
             Props
               (map (\<lambda>(k, v).
                       case v of
                         JObj sub \<Rightarrow>
                           if length sub > 0 then
                             Field k (renderCellWithNestedArrays e (Val v) (Some k)
                                        parentRowIndex)
                           else Field k (renderCellValue e (Val v) None None)
                       | JArr ys \<Rightarrow>
                           if length ys > 0 \<and> list_all isObjectLike ys then
                             renderNestedTable e k v 1
                           else if length ys > 0 then
                             Bullets k
                               (map (\<lambda>item. renderCellValue e (Val item) (Some k)
                                              parentRowIndex) ys)
                           else Field k (renderCellValue e (Val v) None None)
                       | _ \<Rightarrow> Field k (renderCellValue e (Val v) None None))
                    entries))
      | Builtin name \<Rightarrow>
          if name = ''__proto__'' then Props []
          else renderCellValue e value parentKey parentRowIndex
      | _ \<Rightarrow> renderCellValue e value parentKey parentRowIndex)"
| "renderCellValue e value parentKey parentRowIndex =
     (case value of
        Val JNull \<Rightarrow> NullSpan
      | Undefined \<Rightarrow> UndefinedSpan
      | Val (JBool b) \<Rightarrow> BoolSpan b
      | Val (JNum n) \<Rightarrow> NumSpan n
      | Val (JStr s) \<Rightarrow> TextSpan s
      | Val v \<Rightarrow> renderCellWithNestedArrays e value parentKey parentRowIndex
      | Builtin name \<Rightarrow>
          if name = ''__proto__'' then
            renderCellWithNestedArrays e value parentKey parentRowIndex
          else TextSpan (builtinString e name))"
  by pat_completeness auto
termination
  apply (relation "measure (case_sum
      (case_sum (\<lambda>(e, key, value, level). 3 * size value)
                (\<lambda>(e, key, value, index, tableId). 3 * size (JArr value)))
      (case_sum (\<lambda>(e, value, pk, pri). 3 * valSize value + 1)
                (\<lambda>(e, value, pk, pri). 3 * valSize value + (if typeofObject value then 2 else 0))))")
  apply simp
  apply (auto dest!: enumerate_mem
              dest: cell_size arrayProp_size arrayProp_size [OF sym] entry_elem_size elem_size entry_size)
  done

declare renderNestedTable.simps [simp del] renderCollapsibleTable.simps [simp del]
  renderCellWithNestedArrays.simps [simp del] renderCellValue.simps [simp del]

section \<open>Copying a record\<close>




section \<open>Parsing JSON text\<close>














section \<open>Notions used in the statements\<close>

text \<open>
  The specification's wording of the same predicate: a non-empty Array all of whose elements
  are Objects, or an Object with at least one key.
\<close>

definition isNestedStructure_spec :: "json \<Rightarrow> bool" where
  "isNestedStructure_spec value =
     (case value of
        JArr xs \<Rightarrow> xs \<noteq> [] \<and> list_all isPlainObject xs
      | JObj kvs \<Rightarrow> kvs \<noteq> []
      | _ \<Rightarrow> False)"

text \<open>The union of the keys of all elements, as a set.\<close>

definition allKeySet :: "json list \<Rightarrow> string set" where
  "allKeySet xs = (\<Union>item \<in> set xs. set (objectKeys item))"


text \<open>
  Every key, at every level of nested plain objects, is non-empty and has no dot.
\<close>

fun dotFreeKeys :: "json \<Rightarrow> bool" where
  "dotFreeKeys (JObj kvs) =
     (distinct (map fst kvs) \<and> list_all (\<lambda>(k, v). k \<noteq> [] \<and> CHR ''.'' \<notin> set k \<and> dotFreeKeys v) kvs)"
| "dotFreeKeys v = True"

text \<open>The string the loop assigns for a value that is not a plain object.\<close>

definition leafString :: "json \<Rightarrow> string" where
  "leafString value =
     (case value of
        JNull \<Rightarrow> []
      | JArr xs \<Rightarrow>
          if length xs = 0 then ''[]''
          else if list_all isObjectLike xs then JSON_stringify value
          else join ''; '' (map String_js xs)
      | _ \<Rightarrow> String_js value)"

text \<open>
  The assignments \<^verbatim>\<open>flattened[newKey] = ...\<close> that flattening an object performs, in the
  order in which they happen (those of a nested object reach the outer record through
  \<^verbatim>\<open>Object.assign\<close>).
\<close>

function flattenWrites :: "(string \<times> json) list \<Rightarrow> string \<Rightarrow> (string \<times> string) list" where
  "flattenWrites [] prefix = []"
| "flattenWrites ((key, value) # rest) prefix =
     (let newKey = (if prefix \<noteq> [] then prefix @ ''.'' @ key else key) in
      (case value of
         JObj kvs \<Rightarrow> flattenWrites kvs newKey
       | _ \<Rightarrow> [(newKey, leafString value)])
      @ flattenWrites rest prefix)"
  by pat_completeness auto
termination
  by (relation "measure (\<lambda>(es, p). size_list (size_prod (\<lambda>_. 0) size) es)") auto

text \<open>Replaying assignments on a record seen as a map.\<close>

definition assignAll :: "(string \<times> string) list \<Rightarrow> (string \<rightharpoonup> string) \<Rightarrow> (string \<rightharpoonup> string)" where
  "assignAll ws m = fold (\<lambda>(k, s) m. if k = ''__proto__'' then m else m(k \<mapsto> s)) ws m"

text \<open>
  The path of a key under a prefix: \<^verbatim>\<open>prefix ? `${prefix}.${key}` : key\<close>.
\<close>

definition flattenPath :: "string \<Rightarrow> string \<Rightarrow> string" where
  "flattenPath prefix key = (if prefix \<noteq> [] then prefix @ ''.'' @ key else key)"

text \<open>
  A primitive: a value that is neither an object nor an array.
\<close>

definition isPrimitive :: "json \<Rightarrow> bool" where
  "isPrimitive v = (\<not> isObjectLike v)"

text \<open>
  The quoting rule of the CSV dialect in the specification's words.
\<close>

definition needsQuoting :: "string \<Rightarrow> bool" where
  "needsQuoting s = (CHR '','' \<in> set s \<or> CHR 0x22 \<in> set s \<or> CHR 0x0A \<in> set s)"

definition doubleQuotes :: "string \<Rightarrow> string" where
  "doubleQuotes s = concat (map (\<lambda>c. if c = CHR 0x22 then [CHR 0x22, CHR 0x22] else [c]) s)"

definition csvCell_spec :: "string \<Rightarrow> string" where
  "csvCell_spec s = (if needsQuoting s then [CHR 0x22] @ doubleQuotes s @ [CHR 0x22] else s)"




section \<open>Headers and rows\<close>

lemma setAdd_set: "set (setAdd k acc) = insert k (set acc)"
  by (auto simp: setAdd_def)

lemma setAdd_distinct: "distinct acc \<Longrightarrow> distinct (setAdd k acc)"
  by (simp add: setAdd_def)

lemma fold_keys_set:
  "set (fold (\<lambda>key acc. if key \<notin> set E then setAdd key acc else acc) ks acc)
     = set acc \<union> (set ks - set E)"
  by (induction ks arbitrary: acc) (auto simp: setAdd_set)

lemma fold_keys_distinct:
  "distinct acc \<Longrightarrow>
   distinct (fold (\<lambda>key acc. if key \<notin> set E then setAdd key acc else acc) ks acc)"
  by (induction ks arbitrary: acc) (auto simp: setAdd_distinct)

lemma fold_items_set:
  "set (fold (\<lambda>item acc.
               fold (\<lambda>key acc. if key \<notin> set E then setAdd key acc else acc) (objectKeys item) acc)
             xs acc)
     = set acc \<union> (allKeySet xs - set E)"
proof (induction xs arbitrary: acc)
  case Nil
  then show ?case by (simp add: allKeySet_def)
next
  case (Cons x xs)
  then show ?case by (auto simp: fold_keys_set allKeySet_def)
qed

lemma fold_items_distinct:
  "distinct acc \<Longrightarrow>
   distinct (fold (\<lambda>item acc.
               fold (\<lambda>key acc. if key \<notin> set E then setAdd key acc else acc) (objectKeys item) acc)
             xs acc)"
  by (induction xs arbitrary: acc) (auto simp: fold_keys_distinct)

lemma sort_distinct_eq: "distinct ks \<Longrightarrow> sort ks = sorted_list_of_set (set ks)"
  by (simp add: sorted_list_of_set_sort_remdups distinct_remdups_id)

lemma headers_array_of_objects:
  assumes "xs \<noteq> []" and "list_all isPlainObject xs"
  shows "headers (getTableStructure (JArr xs) E) = sorted_list_of_set (allKeySet xs - set E)"
proof -
  let ?ks = "fold (\<lambda>item acc.
               fold (\<lambda>key acc. if key \<notin> set E then setAdd key acc else acc) (objectKeys item) acc)
             xs []"
  have "distinct ?ks" by (rule fold_items_distinct) simp
  moreover have "set ?ks = allKeySet xs - set E" by (simp add: fold_items_set)
  ultimately have "sort ?ks = sorted_list_of_set (allKeySet xs - set E)"
    by (simp add: sort_distinct_eq)
  with assms show ?thesis by (simp add: getTableStructure_def Let_def)
qed





text \<open>
  Claim C3, amended. isNestedStructure is true exactly of a non-empty array all of whose
  elements are objects or arrays (the non-null values of JavaScript type object), and of an
  object with at least one key; it is false of null, of every scalar and of the empty array.
\<close>

theorem isNestedStructure_iff:
  "isNestedStructure v =
     ((\<exists>xs. v = JArr xs \<and> xs \<noteq> [] \<and> list_all isObjectLike xs) \<or> (\<exists>kvs. v = JObj kvs \<and> kvs \<noteq> []))
   \<and> isNestedStructure JNull = False
   \<and> isNestedStructure (JBool b) = False
   \<and> isNestedStructure (JNum n) = False
   \<and> isNestedStructure (JStr s) = False
   \<and> isNestedStructure (JArr []) = False"
  by (cases v) (auto simp: isNestedStructure_def)

theorem isNestedStructure_iff_witness:
  "isNestedStructure (JArr [JObj [(''a'', JNum 1)]]) = True
   \<and> isNestedStructure (JObj [(''a'', JNum 1)]) = True
   \<and> isNestedStructure (JArr [JNum 1]) = False"
  using isNestedStructure_iff [of "JArr [JObj [(''a'', JNum 1)]]"]
        isNestedStructure_iff [of "JObj [(''a'', JNum 1)]"]
        isNestedStructure_iff [of "JArr [JNum 1]"]
  by simp

text \<open>
  Claim C3 as stated fails on an array of arrays: its elements are not Objects, yet the
  predicate is true of it.
\<close>

theorem isNestedStructure_array_of_arrays_counterexample:
  "isNestedStructure (JArr [JArr [JNum 1]]) = True
   \<and> isNestedStructure_spec (JArr [JArr [JNum 1]]) = False"
  by (simp add: isNestedStructure_def isNestedStructure_spec_def)

section \<open>Flattening\<close>

lemma assignAll_Nil [simp]: "assignAll [] m = m"
  by (simp add: assignAll_def)

lemma assignAll_Cons [simp]:
  "assignAll ((k, s) # ws) m = assignAll ws (if k = ''__proto__'' then m else m(k \<mapsto> s))"
  by (simp add: assignAll_def)

lemma assignAll_append [simp]: "assignAll (ws @ ws') m = assignAll ws' (assignAll ws m)"
  by (simp add: assignAll_def)

lemma map_of_setProp:
  "map_of (setProp fl k s) = (if k = ''__proto__'' then map_of fl else (map_of fl)(k \<mapsto> s))"
  by (simp add: setProp_def update_conv')

lemma map_of_objectAssign: "map_of (objectAssign fl src) = assignAll src (map_of fl)"
proof -
  have "map_of (fold (\<lambda>(key, s) acc. setProp acc key s) src fl) = assignAll src (map_of fl)"
    by (induction src arbitrary: fl) (auto simp: map_of_setProp)
  then show ?thesis by (simp add: objectAssign_def)
qed

lemma assignAll_map_add: "assignAll ws m = m ++ assignAll ws Map.empty"
proof (induction ws arbitrary: m)
  case Nil
  then show ?case by simp
next
  case (Cons w ws)
  obtain k s where w: "w = (k, s)" by (cases w)
  show ?case
  proof (cases "k = ''__proto__''")
    case True
    with w Cons.IH [of m] show ?thesis by simp
  next
    case False
    have "assignAll (w # ws) m = assignAll ws (m(k \<mapsto> s))"
      using w False by simp
    also have "\<dots> = m(k \<mapsto> s) ++ assignAll ws Map.empty"
      by (rule Cons.IH)
    also have "\<dots> = m ++ (Map.empty(k \<mapsto> s) ++ assignAll ws Map.empty)"
      by (simp add: map_add_upd_left map_add_assoc [symmetric])
    also have "Map.empty(k \<mapsto> s) ++ assignAll ws Map.empty = assignAll ws (Map.empty(k \<mapsto> s))"
      by (rule Cons.IH [symmetric])
    also have "assignAll ws (Map.empty(k \<mapsto> s)) = assignAll (w # ws) Map.empty"
      using w False by simp
    finally show ?thesis .
  qed
qed

lemma setProp_keys:
  "fst ` set (setProp fl k s) = (if k = ''__proto__'' then fst ` set fl else insert k (fst ` set fl))"
proof -
  have "set (map fst (AList.update k s fl)) = insert k (set (map fst fl))"
    by (auto simp: update_keys)
  then show ?thesis by (simp add: setProp_def)
qed

lemma setProp_distinct: "distinct (map fst fl) \<Longrightarrow> distinct (map fst (setProp fl k s))"
  by (simp add: setProp_def distinct_update)

lemma setProp_no_proto:
  "''__proto__'' \<notin> fst ` set fl \<Longrightarrow> ''__proto__'' \<notin> fst ` set (setProp fl k s)"
  by (simp add: setProp_keys)

lemma objectAssign_distinct: "distinct (map fst fl) \<Longrightarrow> distinct (map fst (objectAssign fl src))"
proof -
  have "distinct (map fst fl) \<Longrightarrow> distinct (map fst (fold (\<lambda>(key, s) acc. setProp acc key s) src fl))"
    by (induction src arbitrary: fl) (auto simp: setProp_distinct)
  then show "distinct (map fst fl) \<Longrightarrow> distinct (map fst (objectAssign fl src))"
    by (simp add: objectAssign_def)
qed

lemma objectAssign_no_proto:
  "''__proto__'' \<notin> fst ` set fl \<Longrightarrow> ''__proto__'' \<notin> fst ` set (objectAssign fl src)"
proof -
  have "''__proto__'' \<notin> fst ` set fl \<Longrightarrow>
        ''__proto__'' \<notin> fst ` set (fold (\<lambda>(key, s) acc. setProp acc key s) src fl)"
  proof (induction src arbitrary: fl)
    case Nil
    then show ?case by simp
  next
    case (Cons w src)
    obtain k s where w: "w = (k, s)" by (cases w)
    have "''__proto__'' \<notin> fst ` set (setProp fl k s)"
      using Cons.prems by (rule setProp_no_proto)
    then show ?case using w Cons.IH [of "setProp fl k s"] by simp
  qed
  then show "''__proto__'' \<notin> fst ` set fl \<Longrightarrow> ''__proto__'' \<notin> fst ` set (objectAssign fl src)"
    by (simp add: objectAssign_def)
qed

lemma loop_invariant:
  "distinct (map fst fl) \<and> ''__proto__'' \<notin> fst ` set fl \<Longrightarrow>
   distinct (map fst (flattenObject_loop es p fl)) \<and> ''__proto__'' \<notin> fst ` set (flattenObject_loop es p fl)"
proof (induction es p fl rule: flattenObject_loop.induct)
  case (1 prefix flattened)
  then show ?case by simp
next
  case (2 key "value" rest prefix flattened)
  let ?newKey = "if prefix \<noteq> [] then prefix @ ''.'' @ key else key"
  let ?next = "case value of
           JNull \<Rightarrow> setProp flattened ?newKey []
         | JArr xs \<Rightarrow>
             if length xs = 0 then setProp flattened ?newKey ''[]''
             else if list_all isObjectLike xs then setProp flattened ?newKey (JSON_stringify value)
             else setProp flattened ?newKey (join ''; '' (map String_js xs))
         | JObj kvs \<Rightarrow> objectAssign flattened (flattenObject_loop kvs ?newKey [])
         | _ \<Rightarrow> setProp flattened ?newKey (String_js value)"
  have "distinct (map fst ?next) \<and> ''__proto__'' \<notin> fst ` set ?next"
    using "2.prems"
    by (cases "value") (simp_all add: setProp_distinct setProp_no_proto objectAssign_distinct
        objectAssign_no_proto del: String_js.simps)
  then have "distinct (map fst (flattenObject_loop rest prefix ?next))
      \<and> ''__proto__'' \<notin> fst ` set (flattenObject_loop rest prefix ?next)"
    by (rule "2.IH"(2) [OF refl])
  then show ?case by (simp add: Let_def)
qed

lemma assignAll_alist:
  "distinct (map fst src) \<Longrightarrow> ''__proto__'' \<notin> fst ` set src \<Longrightarrow> assignAll src m = m ++ map_of src"
proof (induction src arbitrary: m)
  case Nil
  then show ?case by simp
next
  case (Cons w src)
  obtain k s where w: "w = (k, s)" by (cases w)
  from Cons.prems w have k: "k \<noteq> ''__proto__''" "k \<notin> fst ` set src"
    and d: "distinct (map fst src)" and np: "''__proto__'' \<notin> fst ` set src"
    by auto
  have "assignAll (w # src) m = assignAll src (m(k \<mapsto> s))" using w k by simp
  also have "\<dots> = m(k \<mapsto> s) ++ map_of src" using d np by (rule Cons.IH)
  also have "\<dots> = m ++ map_of (w # src)"
  proof (rule ext)
    fix x
    have kn: "map_of src k = None" using k(2) by (simp add: map_of_eq_None_iff)
    show "(m(k \<mapsto> s) ++ map_of src) x = (m ++ map_of (w # src)) x"
      using kn by (auto simp: map_add_def w split: option.splits)
  qed
  finally show ?case .
qed

lemma map_of_loop:
  "map_of (flattenObject_loop es p fl) = assignAll (flattenWrites es p) (map_of fl)"
proof (induction es p fl rule: flattenObject_loop.induct)
  case (1 prefix flattened)
  then show ?case by simp
next
  case (2 key "value" rest prefix flattened)
  let ?newKey = "if prefix \<noteq> [] then prefix @ ''.'' @ key else key"
  let ?next = "case value of
           JNull \<Rightarrow> setProp flattened ?newKey []
         | JArr xs \<Rightarrow>
             if length xs = 0 then setProp flattened ?newKey ''[]''
             else if list_all isObjectLike xs then setProp flattened ?newKey (JSON_stringify value)
             else setProp flattened ?newKey (join ''; '' (map String_js xs))
         | JObj kvs \<Rightarrow> objectAssign flattened (flattenObject_loop kvs ?newKey [])
         | _ \<Rightarrow> setProp flattened ?newKey (String_js value)"
  let ?ws = "case value of JObj kvs \<Rightarrow> flattenWrites kvs ?newKey | _ \<Rightarrow> [(?newKey, leafString value)]"
  have step: "map_of ?next = assignAll ?ws (map_of flattened)"
  proof (cases "value")
    case (JObj kvs)
    let ?sub = "flattenObject_loop kvs ?newKey []"
    have inv: "distinct (map fst ?sub) \<and> ''__proto__'' \<notin> fst ` set ?sub"
      by (rule loop_invariant) simp
    have "map_of ?next = assignAll ?sub (map_of flattened)"
      using JObj by (simp add: map_of_objectAssign)
    also have "\<dots> = map_of flattened ++ map_of ?sub"
      using inv by (simp add: assignAll_alist)
    also have "map_of ?sub = assignAll (flattenWrites kvs ?newKey) (map_of [])"
      by (rule "2.IH"(1) [OF refl JObj])
    also have "map_of flattened ++ assignAll (flattenWrites kvs ?newKey) (map_of [])
                 = assignAll (flattenWrites kvs ?newKey) (map_of flattened)"
      using assignAll_map_add [of "flattenWrites kvs ?newKey" "map_of flattened"] by simp
    finally show ?thesis using JObj by simp
  qed (simp_all add: map_of_setProp leafString_def del: String_js.simps)
  have "map_of (flattenObject_loop rest prefix ?next) = assignAll (flattenWrites rest prefix) (map_of ?next)"
    by (rule "2.IH"(2) [OF refl])
  then show ?case using step by (simp add: Let_def)
qed

lemma assignAll_notin: "q \<notin> fst ` set ws \<Longrightarrow> assignAll ws m q = m q"
proof (induction ws arbitrary: m)
  case Nil
  then show ?case by simp
next
  case (Cons w ws)
  obtain k s where w: "w = (k, s)" by (cases w)
  from Cons.prems w have "q \<noteq> k" and "q \<notin> fst ` set ws" by auto
  then show ?case using w Cons.IH [of "if k = ''__proto__'' then m else m(k \<mapsto> s)"] by simp
qed

lemma assignAll_distinct_lookup:
  "distinct (map fst ws) \<Longrightarrow> (q, s) \<in> set ws \<Longrightarrow> q \<noteq> ''__proto__'' \<Longrightarrow> assignAll ws m q = Some s"
proof (induction ws arbitrary: m)
  case Nil
  then show ?case by simp
next
  case (Cons w ws)
  obtain k s' where w: "w = (k, s')" by (cases w)
  show ?case
  proof (cases "(q, s) = w")
    case True
    then have "q \<notin> fst ` set ws" using Cons.prems(1) w by auto
    then have "assignAll ws (m(q \<mapsto> s)) q = (m(q \<mapsto> s)) q" by (rule assignAll_notin)
    then show ?thesis using True w Cons.prems(3) by simp
  next
    case False
    have "distinct (map fst ws)" using Cons.prems(1) by simp
    moreover have "(q, s) \<in> set ws" using False Cons.prems(2) by simp
    ultimately have "assignAll ws (if k = ''__proto__'' then m else m(k \<mapsto> s')) q = Some s"
      using Cons.prems(3) by (rule Cons.IH)
    then show ?thesis using w by simp
  qed
qed

lemma assignAll_lookup_cases:
  "assignAll ws m q = Some s \<Longrightarrow> ((q, s) \<in> set ws \<and> q \<noteq> ''__proto__'') \<or> m q = Some s"
proof (induction ws arbitrary: m)
  case Nil
  then show ?case by simp
next
  case (Cons w ws)
  obtain k s' where w: "w = (k, s')" by (cases w)
  let ?m = "if k = ''__proto__'' then m else m(k \<mapsto> s')"
  have "assignAll ws ?m q = Some s" using Cons.prems w by simp
  then have "((q, s) \<in> set ws \<and> q \<noteq> ''__proto__'') \<or> ?m q = Some s" by (rule Cons.IH)
  then show ?case using w by (auto split: if_splits)
qed

lemma writes_leaf_mem:
  "(key, value) \<in> set kvs \<Longrightarrow> \<not> isPlainObject value \<Longrightarrow>
   (flattenPath p key, leafString value) \<in> set (flattenWrites kvs p)"
proof (induction kvs)
  case Nil
  then show ?case by simp
next
  case (Cons e kvs)
  obtain k v where e: "e = (k, v)" by (cases e)
  show ?case
  proof (cases "(key, value) = e")
    case True
    then have kv: "k = key" "v = value" using e by simp_all
    show ?thesis unfolding e kv using Cons.prems(2)
      by (cases "value") (simp_all add: flattenPath_def Let_def)
  next
    case False
    then have "(flattenPath p key, leafString value) \<in> set (flattenWrites kvs p)"
      using Cons by simp
    then show ?thesis using e by (simp add: Let_def)
  qed
qed

lemma writes_nested_subset:
  "(key, JObj sub) \<in> set kvs \<Longrightarrow>
   set (flattenWrites sub (flattenPath p key)) \<subseteq> set (flattenWrites kvs p)"
proof (induction kvs)
  case Nil
  then show ?case by simp
next
  case (Cons e kvs)
  obtain k v where e: "e = (k, v)" by (cases e)
  show ?case
  proof (cases "(key, JObj sub) = e")
    case True
    then have kv: "k = key" "v = JObj sub" using e by simp_all
    show ?thesis unfolding e kv by (simp add: flattenPath_def Let_def)
  next
    case False
    then have "set (flattenWrites sub (flattenPath p key)) \<subseteq> set (flattenWrites kvs p)"
      using Cons by simp
    then show ?thesis using e by (auto simp: Let_def)
  qed
qed

lemma writes_under_prefix:
  "p \<noteq> [] \<Longrightarrow> (q, s) \<in> set (flattenWrites es p) \<Longrightarrow> \<exists>r. q = p @ CHR ''.'' # r"
proof (induction es p rule: flattenWrites.induct)
  case (1 prefix)
  then show ?case by simp
next
  case (2 key "value" rest prefix)
  let ?newKey = "prefix @ ''.'' @ key"
  let ?ws = "case value of JObj kvs \<Rightarrow> flattenWrites kvs ?newKey | _ \<Rightarrow> [(?newKey, leafString value)]"
  from "2.prems" have "(q, s) \<in> set ?ws \<or> (q, s) \<in> set (flattenWrites rest prefix)"
    by (simp add: Let_def cong: json.case_cong)
  then show ?case
  proof
    assume mem: "(q, s) \<in> set ?ws"
    show ?thesis
    proof (cases "value")
      case (JObj kvs)
      have nk: "(if prefix \<noteq> [] then prefix @ ''.'' @ key else key) = ?newKey"
        using "2.prems"(1) by simp
      have "?newKey \<noteq> []" by simp
      moreover have "(q, s) \<in> set (flattenWrites kvs ?newKey)" using mem JObj by simp
      ultimately have "\<exists>r. q = ?newKey @ CHR ''.'' # r"
        using "2.IH"(1) [OF refl JObj] nk by simp
      then show ?thesis by auto
    qed (use mem in auto)
  next
    assume "(q, s) \<in> set (flattenWrites rest prefix)"
    then show ?thesis using "2.IH"(2) [OF refl] "2.prems"(1) by simp
  qed
qed

lemma writes_shape:
  "\<forall>k \<in> fst ` set es. k \<noteq> [] \<Longrightarrow> (q, s) \<in> set (flattenWrites es p) \<Longrightarrow>
   \<exists>k \<in> fst ` set es. \<exists>r. q = flattenPath p k @ r \<and> (r = [] \<or> (\<exists>r0. r = CHR ''.'' # r0))"
proof (induction es)
  case Nil
  then show ?case by simp
next
  case (Cons e es)
  obtain k v where e: "e = (k, v)" by (cases e)
  let ?ws = "case v of JObj kvs \<Rightarrow> flattenWrites kvs (flattenPath p k) | _ \<Rightarrow> [(flattenPath p k, leafString v)]"
  from Cons.prems(2) e have "(q, s) \<in> set ?ws \<or> (q, s) \<in> set (flattenWrites es p)"
    by (simp add: Let_def flattenPath_def cong: json.case_cong)
  then show ?case
  proof
    assume mem: "(q, s) \<in> set ?ws"
    have kne: "flattenPath p k \<noteq> []" using Cons.prems(1) e by (simp add: flattenPath_def)
    have "\<exists>r. q = flattenPath p k @ r \<and> (r = [] \<or> (\<exists>r0. r = CHR ''.'' # r0))"
    proof (cases v)
      case (JObj kvs)
      then have "(q, s) \<in> set (flattenWrites kvs (flattenPath p k))" using mem by simp
      with kne have "\<exists>r. q = flattenPath p k @ CHR ''.'' # r" by (rule writes_under_prefix)
      then show ?thesis by auto
    qed (use mem in auto)
    then show ?thesis using e by auto
  next
    assume "(q, s) \<in> set (flattenWrites es p)"
    then have "\<exists>k \<in> fst ` set es. \<exists>r. q = flattenPath p k @ r \<and> (r = [] \<or> (\<exists>r0. r = CHR ''.'' # r0))"
      using Cons by simp
    then show ?thesis by auto
  qed
qed

lemma dot_free_separation:
  "CHR ''.'' \<notin> set k \<Longrightarrow> CHR ''.'' \<notin> set k' \<Longrightarrow>
   r = [] \<or> (\<exists>r0. r = CHR ''.'' # r0) \<Longrightarrow> r' = [] \<or> (\<exists>r0. r' = CHR ''.'' # r0) \<Longrightarrow>
   k @ r = k' @ r' \<Longrightarrow> k = k'"
proof (induction k arbitrary: k')
  case Nil
  then show ?case by (cases k') auto
next
  case (Cons c k0)
  show ?case
  proof (cases k')
    case Nil
    then show ?thesis using Cons.prems by auto
  next
    case (Cons c' k0')
    then have "c = c'" and "k0 @ r = k0' @ r'" using Cons.prems(5) by simp_all
    moreover have "CHR ''.'' \<notin> set k0" "CHR ''.'' \<notin> set k0'"
      using Cons.prems(1,2) Cons by simp_all
    ultimately show ?thesis using Cons.IH [of k0'] Cons.prems(3,4) Cons by simp
  qed
qed

lemma flattenPath_cancel: "flattenPath p k @ r = flattenPath p k' @ r' \<Longrightarrow> k @ r = k' @ r'"
  by (simp add: flattenPath_def split: if_splits)

lemma dotFreeKeys_Cons:
  "dotFreeKeys (JObj ((key, value) # rest)) =
     (key \<notin> fst ` set rest \<and> key \<noteq> [] \<and> CHR ''.'' \<notin> set key \<and> dotFreeKeys value
      \<and> dotFreeKeys (JObj rest))"
  by (simp add: conj_ac)

lemma dotFreeKeys_keys:
  "dotFreeKeys (JObj rest) \<Longrightarrow> k \<in> fst ` set rest \<Longrightarrow> k \<noteq> [] \<and> CHR ''.'' \<notin> set k"
  by (force simp: list_all_iff)

lemma writes_distinct:
  "dotFreeKeys (JObj es) \<Longrightarrow> distinct (map fst (flattenWrites es p))"
proof (induction es p rule: flattenWrites.induct)
  case (1 prefix)
  then show ?case by simp
next
  case (2 key "value" rest prefix)
  let ?newKey = "if prefix \<noteq> [] then prefix @ ''.'' @ key else key"
  let ?ws = "case value of JObj kvs \<Rightarrow> flattenWrites kvs ?newKey | _ \<Rightarrow> [(?newKey, leafString value)]"
  note all = "2.prems" [unfolded dotFreeKeys_Cons]
  from all have knew: "key \<notin> fst ` set rest" by blast
  from all have kne: "key \<noteq> []" by blast
  from all have kdot: "CHR ''.'' \<notin> set key" by blast
  from all have dv: "dotFreeKeys value" by blast
  from all have dr: "dotFreeKeys (JObj rest)" by blast
  have d1: "distinct (map fst ?ws)"
  proof (cases "value")
    case (JObj kvs)
    have "distinct (map fst (flattenWrites kvs ?newKey))"
      using dv unfolding JObj by (rule "2.IH"(1) [OF refl JObj])
    then show ?thesis unfolding JObj by simp
  qed simp_all
  have d2: "distinct (map fst (flattenWrites rest prefix))"
    using dr by (rule "2.IH"(2) [OF refl])
  have one: "flattenWrites [(key, value)] prefix = ?ws"
    by (simp add: Let_def)
  have disj: "fst ` set ?ws \<inter> fst ` set (flattenWrites rest prefix) = {}"
  proof (rule ccontr)
    assume "fst ` set ?ws \<inter> fst ` set (flattenWrites rest prefix) \<noteq> {}"
    then obtain q s s' where m1: "(q, s) \<in> set ?ws" and m2: "(q, s') \<in> set (flattenWrites rest prefix)"
      by auto
    have "\<forall>k \<in> fst ` set [(key, value)]. k \<noteq> []" using kne by simp
    moreover have "(q, s) \<in> set (flattenWrites [(key, value)] prefix)" using m1 one by simp
    ultimately have "\<exists>k \<in> fst ` set [(key, value)]. \<exists>r. q = flattenPath prefix k @ r
        \<and> (r = [] \<or> (\<exists>r0. r = CHR ''.'' # r0))"
      by (rule writes_shape)
    then obtain r where
      r: "q = flattenPath prefix key @ r" "r = [] \<or> (\<exists>r0. r = CHR ''.'' # r0)" by auto
    have "\<forall>k \<in> fst ` set rest. k \<noteq> []" using dr dotFreeKeys_keys by blast
    from writes_shape [OF this m2] obtain k' r' where
      k': "k' \<in> fst ` set rest" "q = flattenPath prefix k' @ r'" "r' = [] \<or> (\<exists>r0. r' = CHR ''.'' # r0)"
      by blast
    have "flattenPath prefix key @ r = flattenPath prefix k' @ r'" using r(1) k'(2) by simp
    then have eq: "key @ r = k' @ r'" by (rule flattenPath_cancel)
    have "CHR ''.'' \<notin> set k'" using dr k'(1) dotFreeKeys_keys by blast
    with kdot have "key = k'" using r(2) k'(3) eq by (rule dot_free_separation)
    with knew k'(1) show False by simp
  qed
  have "flattenWrites ((key, value) # rest) prefix = ?ws @ flattenWrites rest prefix"
    by (simp add: Let_def)
  then show ?case using d1 d2 disj by simp
qed

lemma flattenObject_JObj: "flattenObject (JObj kvs) p = Inr (flattenObject_loop kvs p [])"
  by (simp add: flattenObject_def)

lemma map_of_flattened:
  "map_of (flattenObject_loop kvs p []) = assignAll (flattenWrites kvs p) Map.empty"
  using map_of_loop [of kvs p "[]"] by simp

text \<open>
  Claim C2, amended. For every JSON object whose keys, at every level of nested plain
  objects, are non-empty and contain no dot, the dot-joined paths that flattening assigns are
  pairwise distinct, so no assignment overwrites an earlier one: every value written at a path
  (other than a path named \<^verbatim>\<open>__proto__\<close>, which the assignment cannot create) is the value
  the flattened record holds at that path.
\<close>

theorem flattenObject_paths_unique:
  assumes "dotFreeKeys (JObj kvs)"
  shows "distinct (map fst (flattenWrites kvs prefix))
       \<and> (\<exists>flattened. flattenObject (JObj kvs) prefix = Inr flattened
            \<and> (\<forall>q s. (q, s) \<in> set (flattenWrites kvs prefix) \<and> q \<noteq> ''__proto__''
                  \<longrightarrow> map_of flattened q = Some s))"
proof -
  have d: "distinct (map fst (flattenWrites kvs prefix))"
    using assms by (rule writes_distinct)
  have "map_of (flattenObject_loop kvs prefix []) q = Some s"
    if "(q, s) \<in> set (flattenWrites kvs prefix)" and "q \<noteq> ''__proto__''" for q s
    using d that by (simp add: map_of_flattened assignAll_distinct_lookup)
  with d show ?thesis by (simp add: flattenObject_JObj)
qed

theorem flattenObject_paths_unique_witness:
  "dotFreeKeys (JObj [(''a'', JObj [(''b'', JNum 1)]), (''c'', JNum 2)])
   \<and> distinct (map fst (flattenWrites [(''a'', JObj [(''b'', JNum 1)]), (''c'', JNum 2)] []))
   \<and> flattenObject (JObj [(''a'', JObj [(''b'', JNum 1)]), (''c'', JNum 2)]) []
       = Inr [(''a.b'', ''1''), (''c'', ''2'')]"
proof -
  have h: "dotFreeKeys (JObj [(''a'', JObj [(''b'', JNum 1)]), (''c'', JNum 2)])" by simp
  have ev: "flattenObject (JObj [(''a'', JObj [(''b'', JNum 1)]), (''c'', JNum 2)]) []
       = Inr [(''a.b'', ''1''), (''c'', ''2'')]"
    by (simp add: flattenObject_def setProp_def objectAssign_def numString_def natString.simps
        digitChar_def)
  from flattenObject_paths_unique [OF h, of "[]"] h ev show ?thesis by simp
qed

text \<open>
  Claim C2 as stated fails: in \<^verbatim>\<open>{"a":{"b":1},"a.b":2}\<close> the nested entry and the dotted key
  flatten to the same path, and the second assignment overwrites the first.
\<close>

theorem flattenObject_collision_counterexample:
  "\<not> distinct (map fst (flattenWrites [(''a'', JObj [(''b'', JNum 1)]), (''a.b'', JNum 2)] []))
   \<and> flattenWrites [(''a'', JObj [(''b'', JNum 1)]), (''a.b'', JNum 2)] []
       = [(''a.b'', ''1''), (''a.b'', ''2'')]
   \<and> flattenObject (JObj [(''a'', JObj [(''b'', JNum 1)]), (''a.b'', JNum 2)]) []
       = Inr [(''a.b'', ''2'')]"
  by (simp add: flattenObject_def setProp_def objectAssign_def leafString_def numString_def
      natString.simps digitChar_def)

lemma not_all_objectLike: "xs \<noteq> [] \<Longrightarrow> list_all isPrimitive xs \<Longrightarrow> \<not> list_all isObjectLike xs"
  by (cases xs) (auto simp: isPrimitive_def)

lemma all_plain_objectLike: "list_all isPlainObject xs \<Longrightarrow> list_all isObjectLike xs"
proof (induction xs)
  case Nil
  then show ?case by simp
next
  case (Cons x xs)
  then show ?case by (cases x) auto
qed

text \<open>
  Claim C6, amended. For every record object in which no two entries flatten to the same
  path, flatten maps the entry at path prefix.key (key alone when the prefix is empty, as at
  top level; a path named \<^verbatim>\<open>__proto__\<close> apart) as follows: null becomes the empty string,
  an empty array the string \<^verbatim>\<open>[]\<close>, a non-empty array of objects its compact JSON text, a
  non-empty array of primitives its elements' strings joined with \<^verbatim>\<open>; \<close>, a nested object
  contributes every entry of its own flattening under the extended path, and any other scalar
  becomes its string form.
\<close>

theorem flattenObject_entry_cases:
  assumes "distinct (map fst (flattenWrites kvs prefix))"
    and "(key, value) \<in> set kvs"
    and "flattenPath prefix key \<noteq> ''__proto__''"
  shows "\<exists>flattened. flattenObject (JObj kvs) prefix = Inr flattened
     \<and> (value = JNull \<longrightarrow> map_of flattened (flattenPath prefix key) = Some [])
     \<and> (value = JArr [] \<longrightarrow> map_of flattened (flattenPath prefix key) = Some ''[]'')
     \<and> (\<forall>xs. value = JArr xs \<and> xs \<noteq> [] \<and> list_all isPlainObject xs
            \<longrightarrow> map_of flattened (flattenPath prefix key) = Some (JSON_stringify value))
     \<and> (\<forall>xs. value = JArr xs \<and> xs \<noteq> [] \<and> list_all isPrimitive xs
            \<longrightarrow> map_of flattened (flattenPath prefix key) = Some (join ''; '' (map String_js xs)))
     \<and> (\<forall>sub. value = JObj sub
            \<longrightarrow> (\<exists>nested. flattenObject value (flattenPath prefix key) = Inr nested
                  \<and> (\<forall>q s. map_of nested q = Some s \<longrightarrow> map_of flattened q = Some s)))
     \<and> ((\<exists>b. value = JBool b) \<or> (\<exists>n. value = JNum n) \<or> (\<exists>s. value = JStr s)
            \<longrightarrow> map_of flattened (flattenPath prefix key) = Some (String_js value))"
proof -
  let ?fl = "flattenObject_loop kvs prefix []"
  let ?path = "flattenPath prefix key"
  have look: "map_of ?fl q = Some s"
    if "(q, s) \<in> set (flattenWrites kvs prefix)" and "q \<noteq> ''__proto__''" for q s
    using assms(1) that by (simp add: map_of_flattened assignAll_distinct_lookup)
  have leaf: "map_of ?fl ?path = Some (leafString value)" if "\<not> isPlainObject value"
    using writes_leaf_mem [OF assms(2) that, of prefix] assms(3) by (rule look)
  have c1: "value = JNull \<longrightarrow> map_of ?fl ?path = Some []"
    using leaf by (auto simp: leafString_def)
  have c2: "value = JArr [] \<longrightarrow> map_of ?fl ?path = Some ''[]''"
    using leaf by (auto simp: leafString_def)
  have c3: "\<forall>xs. value = JArr xs \<and> xs \<noteq> [] \<and> list_all isPlainObject xs
            \<longrightarrow> map_of ?fl ?path = Some (JSON_stringify value)"
    using leaf all_plain_objectLike by (auto simp: leafString_def)
  have c4: "\<forall>xs. value = JArr xs \<and> xs \<noteq> [] \<and> list_all isPrimitive xs
            \<longrightarrow> map_of ?fl ?path = Some (join ''; '' (map String_js xs))"
    using leaf not_all_objectLike by (auto simp: leafString_def)
  have c5: "\<forall>sub. value = JObj sub
            \<longrightarrow> (\<exists>nested. flattenObject value ?path = Inr nested
                  \<and> (\<forall>q s. map_of nested q = Some s \<longrightarrow> map_of ?fl q = Some s))"
  proof (intro allI impI)
    fix sub assume v: "value = JObj sub"
    have sub: "set (flattenWrites sub ?path) \<subseteq> set (flattenWrites kvs prefix)"
      using assms(2) unfolding v by (rule writes_nested_subset)
    have "map_of ?fl q = Some s" if "map_of (flattenObject_loop sub ?path []) q = Some s" for q s
    proof -
      from that have "assignAll (flattenWrites sub ?path) Map.empty q = Some s"
        by (simp add: map_of_flattened)
      then have "(q, s) \<in> set (flattenWrites sub ?path) \<and> q \<noteq> ''__proto__''"
        using assignAll_lookup_cases [of "flattenWrites sub ?path" Map.empty q s] by simp
      then show ?thesis using sub look by blast
    qed
    then show "\<exists>nested. flattenObject value ?path = Inr nested
                  \<and> (\<forall>q s. map_of nested q = Some s \<longrightarrow> map_of ?fl q = Some s)"
      unfolding v by (simp add: flattenObject_JObj)
  qed
  have c6: "(\<exists>b. value = JBool b) \<or> (\<exists>n. value = JNum n) \<or> (\<exists>s. value = JStr s)
            \<longrightarrow> map_of ?fl ?path = Some (String_js value)"
    using leaf by (auto simp: leafString_def)
  from c1 c2 c3 c4 c5 c6 show ?thesis
    unfolding flattenObject_JObj by blast
qed

theorem flattenObject_entry_cases_witness:
  "distinct (map fst (flattenWrites [(''a'', JObj [(''b'', JNum 1), (''c'', JNum 2)])] []))
   \<and> (''a'', JObj [(''b'', JNum 1), (''c'', JNum 2)]) \<in> set [(''a'', JObj [(''b'', JNum 1), (''c'', JNum 2)])]
   \<and> flattenPath [] ''a'' \<noteq> ''__proto__''
   \<and> flattenObject (JObj [(''a'', JObj [(''b'', JNum 1), (''c'', JNum 2)])]) []
       = Inr [(''a.b'', ''1''), (''a.c'', ''2'')]
   \<and> flattenObject (JObj [(''b'', JNum 1), (''c'', JNum 2)]) (flattenPath [] ''a'')
       = Inr [(''a.b'', ''1''), (''a.c'', ''2'')]
   \<and> exportToCSV exampleEnv (Some [JObj [(''a'', JObj [(''b'', JNum 1), (''c'', JNum 2)])]]) ''T''
       = Download ''T_2025-01-31.csv'' (''a.b,a.c'' @ [CHR 0x0A] @ ''1,2'')
   \<and> flattenObject (JObj [(''a'', JArr [JObj [(''x'', JNum 1)]])]) []
       = Inr [(''a'', ''[{'' @ [CHR 0x22] @ ''x'' @ [CHR 0x22] @ '':1}]'')]"
proof -
  have h1: "distinct (map fst (flattenWrites [(''a'', JObj [(''b'', JNum 1), (''c'', JNum 2)])] []))"
    by (simp add: leafString_def)
  have h2: "(''a'', JObj [(''b'', JNum 1), (''c'', JNum 2)]) \<in> set [(''a'', JObj [(''b'', JNum 1), (''c'', JNum 2)])]"
    by simp
  have h3: "flattenPath [] ''a'' \<noteq> ''__proto__''" by (simp add: flattenPath_def)
  have e1: "flattenObject (JObj [(''a'', JObj [(''b'', JNum 1), (''c'', JNum 2)])]) []
       = Inr [(''a.b'', ''1''), (''a.c'', ''2'')]"
    by (simp add: flattenObject_def setProp_def objectAssign_def numString_def natString.simps
        digitChar_def)
  have e2: "flattenObject (JObj [(''b'', JNum 1), (''c'', JNum 2)]) (flattenPath [] ''a'')
       = Inr [(''a.b'', ''1''), (''a.c'', ''2'')]"
    by (simp add: flattenObject_def flattenPath_def setProp_def objectAssign_def numString_def
        natString.simps digitChar_def)
  have e3: "exportToCSV exampleEnv (Some [JObj [(''a'', JObj [(''b'', JNum 1), (''c'', JNum 2)])]]) ''T''
       = Download ''T_2025-01-31.csv'' (''a.b,a.c'' @ [CHR 0x0A] @ ''1,2'')"
    by (simp add: exportToCSV_def e1 csvHeaders_def setAdd_def flattenedCell_def csvCell_def
        exampleEnv_def)
  have e4: "flattenObject (JObj [(''a'', JArr [JObj [(''x'', JNum 1)]])]) []
       = Inr [(''a'', ''[{'' @ [CHR 0x22] @ ''x'' @ [CHR 0x22] @ '':1}]'')]"
    by (simp add: flattenObject_def setProp_def JSON_stringify_def quoteJSONString_def quoteChar_def
        numString_def
        natString.simps digitChar_def)
  from flattenObject_entry_cases [OF h1 h2 h3] h1 h2 h3 e1 e2 e3 e4 show ?thesis by simp
qed

text \<open>
  Claim C6 as stated fails where two entries share a flattened path: in
  \<^verbatim>\<open>{"a.b":null,"a":{"b":1}}\<close> the entry \<^verbatim>\<open>a.b\<close> is null, yet the record holds 1 at that path.
\<close>

theorem flattenObject_overwritten_counterexample:
  "(''a.b'', JNull) \<in> set [(''a.b'', JNull), (''a'', JObj [(''b'', JNum 1)])]
   \<and> flattenPath [] ''a.b'' = ''a.b''
   \<and> flattenObject (JObj [(''a.b'', JNull), (''a'', JObj [(''b'', JNum 1)])]) []
       = Inr [(''a.b'', ''1'')]
   \<and> map_of [(''a.b'', ''1'')] ''a.b'' \<noteq> Some []"
  by (simp add: flattenPath_def flattenObject_def setProp_def objectAssign_def numString_def
      natString.simps digitChar_def)

section \<open>The exported document\<close>





lemma doubleQuotes_set: "set (doubleQuotes s) = set s"
  by (induction s) (auto simp: doubleQuotes_def)

lemma doubleQuotes_id: "CHR 0x22 \<notin> set s \<Longrightarrow> doubleQuotes s = s"
  by (induction s) (auto simp: doubleQuotes_def)

lemma csvCell_eq_spec: "csvCell s = csvCell_spec s"
proof -
  have "csvCell s = (if needsQuoting (doubleQuotes s) then [CHR 0x22] @ doubleQuotes s @ [CHR 0x22]
                     else doubleQuotes s)"
    by (simp add: csvCell_def needsQuoting_def doubleQuotes_def Let_def)
  moreover have "needsQuoting (doubleQuotes s) = needsQuoting s"
    by (simp add: needsQuoting_def doubleQuotes_set)
  moreover have "\<not> needsQuoting s \<Longrightarrow> doubleQuotes s = s"
    by (simp add: needsQuoting_def doubleQuotes_id)
  ultimately show ?thesis by (simp add: csvCell_spec_def)
qed

lemma wrapped_iff: "(\<exists>t. csvCell_spec s = CHR 0x22 # t @ [CHR 0x22]) = needsQuoting s"
proof (cases "needsQuoting s")
  case True
  then show ?thesis by (simp add: csvCell_spec_def)
next
  case False
  then have "CHR 0x22 \<notin> set s" by (simp add: needsQuoting_def)
  then have "\<not> (\<exists>t. s = CHR 0x22 # t @ [CHR 0x22])" by auto
  with False show ?thesis by (simp add: csvCell_spec_def)
qed

lemma flattenAll_length: "flattenAll items = Inr records \<Longrightarrow> length records = length items"
  by (induction items arbitrary: records) (auto split: sum.splits)

text \<open>
  Claim C5. Every document the export produces is the header row followed by one row per
  record, rows joined with LF and cells with commas; a data cell is its string wrapped in double
  quotes with every inner double quote doubled when that string contains a comma, a double
  quote or a line feed, and the bare string otherwise, and a cell is wrapped exactly in the
  first case.
\<close>

theorem exportToCSV_document:
  assumes "exportToCSV e (Some items) tableName = Download file content"
  shows "\<exists>records. flattenAll items = Inr records \<and> length records = length items
      \<and> content = join [CHR 0x0A]
            (join '','' (csvHeaders records) #
             map (\<lambda>flattened.
                    join '','' (map (\<lambda>header. csvCell_spec (flattenedCell e flattened header))
                                 (csvHeaders records)))
                 records)
      \<and> (\<forall>s. (\<exists>t. csvCell_spec s = CHR 0x22 # t @ [CHR 0x22]) = needsQuoting s)"
proof -
  from assms obtain records where r: "flattenAll items = Inr records"
    by (auto simp: exportToCSV_def split: if_splits sum.splits)
  with assms have "content = join [CHR 0x0A]
            (join '','' (csvHeaders records) #
             map (\<lambda>flattened.
                    join '','' (map (\<lambda>header. csvCell_spec (flattenedCell e flattened header))
                                 (csvHeaders records)))
                 records)"
    by (auto simp: exportToCSV_def Let_def csvCell_eq_spec split: if_splits)
  with r flattenAll_length [OF r] wrapped_iff show ?thesis by blast
qed

theorem exportToCSV_document_witness:
  "exportToCSV exampleEnv (Some [JObj [(''a'', JStr ''x,y''), (''b'', JNum 2)]]) ''T''
     = Download ''T_2025-01-31.csv'' (''a,b'' @ [CHR 0x0A] @ [CHR 0x22] @ ''x,y'' @ [CHR 0x22] @ '',2'')
   \<and> (\<exists>records. flattenAll [JObj [(''a'', JStr ''x,y''), (''b'', JNum 2)]] = Inr records
        \<and> length records = length [JObj [(''a'', JStr ''x,y''), (''b'', JNum 2)]]
        \<and> ''a,b'' @ [CHR 0x0A] @ [CHR 0x22] @ ''x,y'' @ [CHR 0x22] @ '',2''
            = join [CHR 0x0A]
               (join '','' (csvHeaders records) #
                map (\<lambda>flattened.
                       join '','' (map (\<lambda>header. csvCell_spec (flattenedCell exampleEnv flattened header))
                                    (csvHeaders records)))
                    records))"
proof -
  have ev: "exportToCSV exampleEnv (Some [JObj [(''a'', JStr ''x,y''), (''b'', JNum 2)]]) ''T''
     = Download ''T_2025-01-31.csv'' (''a,b'' @ [CHR 0x0A] @ [CHR 0x22] @ ''x,y'' @ [CHR 0x22] @ '',2'')"
    by (simp add: exportToCSV_def flattenObject_def setProp_def csvHeaders_def setAdd_def
        flattenedCell_def csvCell_def exampleEnv_def numString_def natString.simps digitChar_def)
  from exportToCSV_document [OF ev] ev show ?thesis by blast
qed

text \<open>
  Claim C9. The export is not total: on the array \<^verbatim>\<open>[null]\<close> the call
  \<^verbatim>\<open>Object.entries(null)\<close> of the flattening raises a TypeError. (The renderers are total:
  they are defined above by a terminating recursion none of whose branches raises.)
\<close>

theorem exportToCSV_null_element_raises:
  "exportToCSV exampleEnv (Some [JNull]) ''Table'' = Raised TypeError"
  by (simp add: exportToCSV_def flattenObject_def)

section \<open>Rendering\<close>

lemma nthOpt_in_range: "i < length xs \<Longrightarrow> nthOpt xs i = Some (xs ! i)"
  by (simp add: nthOpt_def)

lemma headers_excluding:
  assumes "xs \<noteq> []" and "list_all isPlainObject xs"
  shows "set (headers (getTableStructure (JArr xs) E)) = allKeySet xs - set E"
proof -
  have "finite (allKeySet xs - set E)" by (simp add: allKeySet_def objectKeys_def)
  then show ?thesis using assms by (simp add: headers_array_of_objects)
qed

text \<open>
  Claim C7. When renderNestedTable builds the grid of a non-empty array of objects under the
  key Results, the headers are the sorted key union without Packages and Vulnerabilities, and
  a row whose record holds a non-empty array under one of these two keys carries that array
  as a collapsible table beneath it; under every other key the headers are the whole sorted
  key union.
\<close>

theorem renderNestedTable_excluded_keys:
  assumes "xs \<noteq> []" and "list_all isPlainObject xs"
  shows "\<exists>hs rs. renderNestedTable e key (JArr xs) level = NestedTable key (length xs) hs rs
      \<and> hs = headers (getTableStructure (JArr xs)
                  (if key = ''Results'' then [''Packages'', ''Vulnerabilities''] else []))
      \<and> (key = ''Results'' \<longrightarrow>
            ''Packages'' \<notin> set hs \<and> ''Vulnerabilities'' \<notin> set hs
            \<and> set hs = allKeySet xs - {''Packages'', ''Vulnerabilities''})
      \<and> (key \<noteq> ''Results'' \<longrightarrow> hs = sorted_list_of_set (allKeySet xs) \<and> set hs = allKeySet xs)
      \<and> length rs = length xs
      \<and> (\<forall>i < length xs. \<forall>ps. nonEmptyArrayProp (Some (xs ! i)) ''Packages'' = Some ps \<longrightarrow>
            (\<exists>cs. snd (rs ! i) = TableSection cs
               \<and> renderCollapsibleTable e ''Packages'' ps 2
                    (''results-'' @ natString i @ ''-Packages'') \<in> set cs))
      \<and> (\<forall>i < length xs. \<forall>vs. nonEmptyArrayProp (Some (xs ! i)) ''Vulnerabilities'' = Some vs \<longrightarrow>
            (\<exists>cs. snd (rs ! i) = TableSection cs
               \<and> renderCollapsibleTable e ''Vulnerabilities'' vs 1
                    (''results-'' @ natString i @ ''-Vulnerabilities'') \<in> set cs))"
proof -
  define E where "E = (if key = ''Results'' then [''Packages'', ''Vulnerabilities''] else [])"
  define t where "t = getTableStructure (JArr xs) E"
  define child where "child = (\<lambda>rowIndex.
                 (case (nonEmptyArrayProp (nthOpt xs rowIndex) ''Vulnerabilities'',
                        nonEmptyArrayProp (nthOpt xs rowIndex) ''Packages'') of
                    (None, None) \<Rightarrow> NoNode
                  | (hasVulnerabilities, hasPackages) \<Rightarrow>
                      TableSection
                        ((case hasVulnerabilities of
                            Some vs \<Rightarrow>
                              [renderCollapsibleTable e ''Vulnerabilities'' vs 1
                                 (''results-'' @ natString rowIndex @ ''-Vulnerabilities'')]
                          | None \<Rightarrow> [])
                         @ (case hasPackages of
                              Some ps \<Rightarrow>
                                [renderCollapsibleTable e ''Packages'' ps 2
                                   (''results-'' @ natString rowIndex @ ''-Packages'')]
                            | None \<Rightarrow> []))))"
  define rs where "rs = map (\<lambda>(rowIndex, row).
                (map (\<lambda>(cellIndex, cell).
                        renderCellValue e cell (nthOpt (headers t) cellIndex) (Some rowIndex))
                     (enumerate 0 row),
                 child rowIndex)) (enumerate 0 (rows t))"
  have ol: "list_all isObjectLike xs" using assms(2) by (rule all_plain_objectLike)
  have eq: "renderNestedTable e key (JArr xs) level = NestedTable key (length xs) (headers t) rs"
    using assms(1) ol
    by (simp add: renderNestedTable.simps Let_def rs_def child_def t_def E_def)
  have len_rows: "length (rows t) = length xs"
    using assms by (simp add: rows_array_of_objects t_def)
  have len: "length rs = length xs" using len_rows by (simp add: rs_def)
  have res: "key = ''Results'' \<longrightarrow>
            ''Packages'' \<notin> set (headers t) \<and> ''Vulnerabilities'' \<notin> set (headers t)
            \<and> set (headers t) = allKeySet xs - {''Packages'', ''Vulnerabilities''}"
    using headers_excluding [OF assms, of "[''Packages'', ''Vulnerabilities'']"]
    by (auto simp: t_def E_def)
  have oth: "key \<noteq> ''Results'' \<longrightarrow>
            headers t = sorted_list_of_set (allKeySet xs) \<and> set (headers t) = allKeySet xs"
    using headers_excluding [OF assms, of "[]"] headers_array_of_objects [OF assms, of "[]"]
    by (simp add: t_def E_def)
  have nth: "snd (rs ! i) = child i" if "i < length xs" for i
    using that len_rows by (simp add: rs_def nth_enumerate_eq)
  have pk: "\<forall>i < length xs. \<forall>ps. nonEmptyArrayProp (Some (xs ! i)) ''Packages'' = Some ps \<longrightarrow>
            (\<exists>cs. snd (rs ! i) = TableSection cs
               \<and> renderCollapsibleTable e ''Packages'' ps 2
                    (''results-'' @ natString i @ ''-Packages'') \<in> set cs)"
  proof (intro allI impI)
    fix i ps
    assume i: "i < length xs" and p: "nonEmptyArrayProp (Some (xs ! i)) ''Packages'' = Some ps"
    have "\<exists>cs. child i = TableSection cs
               \<and> renderCollapsibleTable e ''Packages'' ps 2
                    (''results-'' @ natString i @ ''-Packages'') \<in> set cs"
      using p by (simp add: child_def nthOpt_in_range [OF i] split: option.splits)
    then show "\<exists>cs. snd (rs ! i) = TableSection cs
               \<and> renderCollapsibleTable e ''Packages'' ps 2
                    (''results-'' @ natString i @ ''-Packages'') \<in> set cs"
      by (simp add: nth [OF i])
  qed
  have vu: "\<forall>i < length xs. \<forall>vs. nonEmptyArrayProp (Some (xs ! i)) ''Vulnerabilities'' = Some vs \<longrightarrow>
            (\<exists>cs. snd (rs ! i) = TableSection cs
               \<and> renderCollapsibleTable e ''Vulnerabilities'' vs 1
                    (''results-'' @ natString i @ ''-Vulnerabilities'') \<in> set cs)"
  proof (intro allI impI)
    fix i vs
    assume i: "i < length xs" and p: "nonEmptyArrayProp (Some (xs ! i)) ''Vulnerabilities'' = Some vs"
    have "\<exists>cs. child i = TableSection cs
               \<and> renderCollapsibleTable e ''Vulnerabilities'' vs 1
                    (''results-'' @ natString i @ ''-Vulnerabilities'') \<in> set cs"
      using p by (simp add: child_def nthOpt_in_range [OF i] split: option.splits)
    then show "\<exists>cs. snd (rs ! i) = TableSection cs
               \<and> renderCollapsibleTable e ''Vulnerabilities'' vs 1
                    (''results-'' @ natString i @ ''-Vulnerabilities'') \<in> set cs"
      by (simp add: nth [OF i])
  qed
  have hs: "headers t = headers (getTableStructure (JArr xs)
                  (if key = ''Results'' then [''Packages'', ''Vulnerabilities''] else []))"
    by (simp add: t_def E_def)
  from eq hs res oth len pk vu show ?thesis by blast
qed

lemmas render_eval =
  renderNestedTable.simps renderCollapsibleTable.simps renderCellWithNestedArrays.simps
  renderCellValue.simps getTableStructure_def setAdd_def objectKeys_def nonEmptyArrayProp_def
  nthOpt_def isObjectArray_def natString.simps digitChar_def exampleEnv_def Let_def
  objectPrototypeNames_def indexString_def tableOrder_def

theorem renderNestedTable_excluded_keys_witness:
  "[JObj [(''Name'', JStr ''x''), (''Packages'', JArr [JObj [(''n'', JNum 1)]]),
          (''Vulnerabilities'', JArr [JObj [(''id'', JNum 1)]])]] \<noteq> []
   \<and> list_all isPlainObject
        [JObj [(''Name'', JStr ''x''), (''Packages'', JArr [JObj [(''n'', JNum 1)]]),
               (''Vulnerabilities'', JArr [JObj [(''id'', JNum 1)]])]]
   \<and> renderNestedTable exampleEnv ''Results''
        (JArr [JObj [(''Name'', JStr ''x''), (''Packages'', JArr [JObj [(''n'', JNum 1)]]),
                     (''Vulnerabilities'', JArr [JObj [(''id'', JNum 1)]])]]) 0
       = NestedTable ''Results'' 1 [''Name'']
           [([TextSpan ''x''],
             TableSection
               [CollapsibleTable ''Vulnerabilities'' 1 ''results-0-Vulnerabilities'' 1
                  (Some ([''id''], [[NumSpan 1]])),
                CollapsibleTable ''Packages'' 2 ''results-0-Packages'' 1
                  (Some ([''n''], [[NumSpan 1]]))])]"
proof -
  have ne: "[JObj [(''Name'', JStr ''x''), (''Packages'', JArr [JObj [(''n'', JNum 1)]]),
          (''Vulnerabilities'', JArr [JObj [(''id'', JNum 1)]])]] \<noteq> []" by simp
  have po: "list_all isPlainObject
        [JObj [(''Name'', JStr ''x''), (''Packages'', JArr [JObj [(''n'', JNum 1)]]),
               (''Vulnerabilities'', JArr [JObj [(''id'', JNum 1)]])]]" by simp
  have ev: "renderNestedTable exampleEnv ''Results''
        (JArr [JObj [(''Name'', JStr ''x''), (''Packages'', JArr [JObj [(''n'', JNum 1)]]),
                     (''Vulnerabilities'', JArr [JObj [(''id'', JNum 1)]])]]) 0
       = NestedTable ''Results'' 1 [''Name'']
           [([TextSpan ''x''],
             TableSection
               [CollapsibleTable ''Vulnerabilities'' 1 ''results-0-Vulnerabilities'' 1
                  (Some ([''id''], [[NumSpan 1]])),
                CollapsibleTable ''Packages'' 2 ''results-0-Packages'' 1
                  (Some ([''n''], [[NumSpan 1]]))])]"
    by (simp add: render_eval)
  from renderNestedTable_excluded_keys [OF ne po, of exampleEnv "''Results''" 0] ne po ev
  show ?thesis by blast
qed

text \<open>
  Claim C8. The renderers do drop data. In an object that also has a table-like entry, the
  entry \<^verbatim>\<open>Packages\<close> is shown only when it is a non-empty array of objects: for
  \<^verbatim>\<open>{"Packages":{"a":1},"x":[{"b":1}]}\<close> and for \<^verbatim>\<open>{"Packages":[1,2],"x":[{"b":1}]}\<close> the
  tree holds the table of \<^verbatim>\<open>x\<close> and nothing of \<^verbatim>\<open>Packages\<close>. Under \<^verbatim>\<open>Results\<close> the key
  \<^verbatim>\<open>Packages\<close> is taken out of the headers and shown beneath the row only when it is a
  non-empty array: for \<^verbatim>\<open>{"Results":[{"Packages":{"a":1}}]}\<close> the grid has no column and the
  row no child table.
\<close>

theorem render_drops_Packages_entry:
  "renderCellWithNestedArrays exampleEnv
     (Val (JObj [(''Packages'', JObj [(''a'', JNum 1)]), (''x'', JArr [JObj [(''b'', JNum 1)]])]))
     None None
     = Props [NestedTable ''x'' 1 [''b''] [([NumSpan 1], NoNode)]]
   \<and> renderCellWithNestedArrays exampleEnv
     (Val (JObj [(''Packages'', JArr [JNum 1, JNum 2]), (''x'', JArr [JObj [(''b'', JNum 1)]])]))
     None None
     = Props [NestedTable ''x'' 1 [''b''] [([NumSpan 1], NoNode)]]
   \<and> renderCellWithNestedArrays exampleEnv
     (Val (JObj [(''Results'', JArr [JObj [(''Packages'', JObj [(''a'', JNum 1)])]])]))
     None None
     = Props [NestedTable ''Results'' 1 [] [([], NoNode)]]"
  by (simp add: render_eval)

section \<open>The copied text parses back\<close>



















































end
